theory Spec2Isabelle
  imports Complex_Main "HOL-Library.Char_ord" "HOL-Library.List_Lexorder"
    "HOL-Library.Product_Lexorder"
begin

section \<open>Data model\<close>

text \<open>
  The two scripts of the repository read the same two CSV tables. An event row is the
  value that \<open>load_events\<close> stores under the key \<open>event_id\<close>; a sale row is one
  element of the list that \<open>load_sales\<close> returns, its ticket count already parsed by
  \<open>int(...)\<close>, hence an unbounded (and possibly negative) integer.

  A Python \<open>dict\<close> that the code iterates over is an association list in insertion
  order with distinct keys; a \<open>dict\<close> that is only read by key is a map.
\<close>

record event =
  name :: string
  venue_id :: string
  event_dt :: string

record sale_row =
  event_id :: string
  sales_minute :: string
  tickets :: int

type_synonym 'v dict = "(string \<times> 'v) list"

record "show" =
  concert_id :: string
  show_venue_id :: string
  show_event_dt :: string
  concert_name :: string
  concert_tickets :: int
  upsell_tickets :: int
  total_tickets :: int
  upsell_pct :: real
  timeseries :: "(string \<times> int) list"

datatype error = ZeroDivisionError

text \<open>\<open>d[k] = v\<close> on an insertion-ordered dictionary: an existing key keeps its place.\<close>

fun dict_set :: "'v dict \<Rightarrow> string \<Rightarrow> 'v \<Rightarrow> 'v dict" where
  "dict_set [] k v = [(k, v)]"
| "dict_set ((k', v') # d) k v =
     (if k' = k then (k, v) # d else (k', v') # dict_set d k v)"

section \<open>visualize_sales.py: classify and link\<close>

text \<open>
  \<open>"super awesome tour" in e["name"].lower()\<close>. Strings are byte lists; \<open>lower\<close> is
  modelled on the ASCII letters, which are the only characters whose lower-case form
  occurs in the marker.
\<close>

definition lower_char :: "char \<Rightarrow> char" where
  "lower_char c =
     (if CHR ''A'' \<le> c \<and> c \<le> CHR ''Z'' then char_of (of_char c + (32 :: nat)) else c)"

definition lower :: "string \<Rightarrow> string" where
  "lower s = map lower_char s"

fun contains :: "string \<Rightarrow> string \<Rightarrow> bool" where
  "contains sub [] = (sub = [])"
| "contains sub (x # xs) = (take (length sub) (x # xs) = sub \<or> contains sub xs)"

definition is_tour_name :: "string \<Rightarrow> bool" where
  "is_tour_name n = contains ''super awesome tour'' (lower n)"

definition classify_step ::
  "string \<times> event \<Rightarrow> event dict \<times> event dict \<Rightarrow> event dict \<times> event dict" where
  "classify_step p acc =
     (case p of (eid, e) \<Rightarrow> (case acc of (concerts, upsells) \<Rightarrow>
        if is_tour_name (name e) then (dict_set concerts eid e, upsells)
        else (concerts, dict_set upsells eid e)))"

definition classify_events :: "event dict \<Rightarrow> event dict \<times> event dict" where
  "classify_events events = fold classify_step events ([], [])"

text \<open>
  \<open>build_show_map\<close>: the index \<open>concert_by_vd\<close> and the result \<open>event_to_concert\<close>
  are only ever read by key, so both are maps. The three loops run in the source's order.
\<close>

definition index_concerts :: "event dict \<Rightarrow> (string \<times> string \<rightharpoonup> string)" where
  "index_concerts concerts =
     fold (\<lambda>(cid, c) m. m((venue_id c, event_dt c) \<mapsto> cid)) concerts Map.empty"

definition link_upsell ::
  "(string \<times> string \<rightharpoonup> string) \<Rightarrow> string \<times> event \<Rightarrow> (string \<rightharpoonup> string) \<Rightarrow> (string \<rightharpoonup> string)" where
  "link_upsell concert_by_vd p m =
     (case p of (uid, u) \<Rightarrow>
        (case concert_by_vd (venue_id u, event_dt u) of
           None \<Rightarrow> m
         | Some cid \<Rightarrow> m(uid \<mapsto> cid)))"

definition build_show_map :: "event dict \<Rightarrow> event dict \<Rightarrow> (string \<rightharpoonup> string)" where
  "build_show_map concerts upsells =
     (let concert_by_vd = index_concerts concerts;
          event_to_concert = fold (\<lambda>(cid, c) m. m(cid \<mapsto> cid)) concerts Map.empty
      in fold (link_upsell concert_by_vd) upsells event_to_concert)"

section \<open>visualize_sales.py: aggregate\<close>

text \<open>
  The three \<open>defaultdict\<close> accumulators are read back with \<open>.get(cid, default)\<close> and
  never iterated: maps, with the missing key read as the default.
\<close>

record accum =
  show_concert_tix :: "string \<rightharpoonup> int"
  show_upsell_tix :: "string \<rightharpoonup> int"
  show_timeseries :: "string \<rightharpoonup> (string \<times> int) list"

definition get_or :: "('k \<rightharpoonup> 'v) \<Rightarrow> 'k \<Rightarrow> 'v \<Rightarrow> 'v" where
  "get_or m k d = (case m k of None \<Rightarrow> d | Some v \<Rightarrow> v)"

definition sale_step :: "(string \<rightharpoonup> string) \<Rightarrow> sale_row \<Rightarrow> accum \<Rightarrow> accum" where
  "sale_step event_to_concert row acc =
     (let eid = event_id row in
      case event_to_concert eid of
        None \<Rightarrow> acc
      | Some cid \<Rightarrow>
          let tix = tickets row;
              acc1 = (if eid = cid
                      then acc\<lparr>show_concert_tix :=
                             (show_concert_tix acc)(cid \<mapsto> get_or (show_concert_tix acc) cid 0 + tix)\<rparr>
                      else acc\<lparr>show_upsell_tix :=
                             (show_upsell_tix acc)(cid \<mapsto> get_or (show_upsell_tix acc) cid 0 + tix)\<rparr>)
          in acc1\<lparr>show_timeseries :=
                   (show_timeseries acc1)(cid \<mapsto>
                      get_or (show_timeseries acc1) cid [] @ [(sales_minute row, tix)])\<rparr>)"

definition accumulate :: "(string \<rightharpoonup> string) \<Rightarrow> sale_row list \<Rightarrow> accum" where
  "accumulate event_to_concert sales_rows =
     fold (sale_step event_to_concert) sales_rows
       \<lparr>show_concert_tix = Map.empty, show_upsell_tix = Map.empty,
        show_timeseries = Map.empty\<rparr>"

text \<open>
  Python's \<open>ut / total\<close> on two integers is the correctly rounded quotient and raises
  \<open>ZeroDivisionError\<close> on a zero divisor; \<open>* 100\<close> rounds again. The rounding of
  double arithmetic is the parameter \<open>rnd\<close> (the identity gives exact arithmetic);
  the finite range of doubles is not modelled.
\<close>

definition truediv :: "(real \<Rightarrow> real) \<Rightarrow> int \<Rightarrow> int \<Rightarrow> error + real" where
  "truediv rnd a b =
     (if b = 0 then Inl ZeroDivisionError else Inr (rnd (real_of_int a / real_of_int b)))"

definition upsell_pct_of :: "(real \<Rightarrow> real) \<Rightarrow> int \<Rightarrow> int \<Rightarrow> error + real" where
  "upsell_pct_of rnd ut tot =
     (if tot > 0
      then (case truediv rnd ut tot of Inl e \<Rightarrow> Inl e | Inr q \<Rightarrow> Inr (rnd (q * 100)))
      else Inr 0)"

definition make_show :: "(real \<Rightarrow> real) \<Rightarrow> accum \<Rightarrow> string \<times> event \<Rightarrow> error + show" where
  "make_show rnd acc p =
     (case p of (cid, c) \<Rightarrow>
        let ct = get_or (show_concert_tix acc) cid 0;
            ut = get_or (show_upsell_tix acc) cid 0;
            tot = ct + ut
        in (case upsell_pct_of rnd ut tot of
              Inl e \<Rightarrow> Inl e
            | Inr pct \<Rightarrow>
                Inr \<lparr>concert_id = cid, show_venue_id = venue_id c, show_event_dt = event_dt c,
                     concert_name = name c, concert_tickets = ct, upsell_tickets = ut,
                     total_tickets = tot, upsell_pct = pct,
                     timeseries = sort (get_or (show_timeseries acc) cid [])\<rparr>))"

fun build_shows :: "(real \<Rightarrow> real) \<Rightarrow> accum \<Rightarrow> event dict \<Rightarrow> error + show list" where
  "build_shows rnd acc [] = Inr []"
| "build_shows rnd acc (p # ps) =
     (case make_show rnd acc p of
        Inl e \<Rightarrow> Inl e
      | Inr s \<Rightarrow> (case build_shows rnd acc ps of Inl e \<Rightarrow> Inl e | Inr ss \<Rightarrow> Inr (s # ss)))"

text \<open>
  \<open>shows.sort(key=..., reverse=True)\<close>: a stable sort that keeps the original order of
  equal keys; CPython reverses the list, sorts it stably ascending and reverses again.
\<close>

definition sort_desc :: "show list \<Rightarrow> show list" where
  "sort_desc ss = rev (sort_key total_tickets (rev ss))"

definition aggregate_show_sales ::
  "(real \<Rightarrow> real) \<Rightarrow> sale_row list \<Rightarrow> (string \<rightharpoonup> string) \<Rightarrow> event dict \<Rightarrow> event dict
     \<Rightarrow> error + show list" where
  "aggregate_show_sales rnd sales_rows event_to_concert concerts events =
     (case build_shows rnd (accumulate event_to_concert sales_rows) concerts of
        Inl e \<Rightarrow> Inl e
      | Inr ss \<Rightarrow> Inr (sort_desc ss))"

section \<open>visualize_sales.py: top and bottom\<close>

text \<open>Python slices \<open>xs[:n]\<close> and \<open>xs[k:]\<close> with a possibly negative bound.\<close>

definition slice_to :: "'a list \<Rightarrow> int \<Rightarrow> 'a list" where
  "slice_to xs n = (if n < 0 then take (nat (int (length xs) + n)) xs else take (nat n) xs)"

definition slice_from :: "'a list \<Rightarrow> int \<Rightarrow> 'a list" where
  "slice_from xs k = (if k < 0 then drop (nat (int (length xs) + k)) xs else drop (nat k) xs)"

definition get_top_bottom :: "show list \<Rightarrow> int \<Rightarrow> show list \<times> show list" where
  "get_top_bottom ss n =
     (let with_sales = filter (\<lambda>s. total_tickets s > 0) ss
      in (slice_to with_sales n, slice_from with_sales (- n)))"

section \<open>upsell_rate_by_venue_chart.py: the upsell-rate query\<close>

text \<open>
  The script loads the two CSV files into the tables \<open>events\<close> and \<open>ticket_sales\<close>
  and runs \<open>QUERY\<close>. A table is the list of its rows; \<open>events\<close> has no key, so an
  \<open>event_id\<close> may occur in several rows. The ticket column holds integers (the other
  script parses it with \<open>int\<close>); the 64-bit range of SQLite integers is not modelled
  and an integer converts to a double without rounding. Each common table expression of
  the query is one definition; a join is a nested iteration, \<open>GROUP BY\<close> lists the
  distinct keys and aggregates the rows of each.
\<close>

type_synonym events_table = "(string \<times> event) list"

record venue_row =
  row_venue_id :: string
  row_concert_tickets :: int
  row_upsell_tickets :: int
  upsell_options :: nat
  upsell_rate_pct :: real

definition cte_concerts :: "events_table \<Rightarrow> (string \<times> string \<times> string) list" where
  "cte_concerts events =
     map (\<lambda>(eid, e). (eid, venue_id e, event_dt e))
       (filter (\<lambda>(eid, e). is_tour_name (name e)) events)"

definition cte_upsells :: "events_table \<Rightarrow> (string \<times> string \<times> string \<times> string) list" where
  "cte_upsells events =
     map (\<lambda>(eid, e). (eid, name e, venue_id e, event_dt e))
       (filter (\<lambda>(eid, e). \<not> is_tour_name (name e)) events)"

definition matched_upsells :: "events_table \<Rightarrow> (string \<times> string \<times> string) list" where
  "matched_upsells events =
     concat (map (\<lambda>(uid, un, uv, ud).
        map (\<lambda>(cid, cv, cd). (uid, un, cv))
          (filter (\<lambda>(cid, cv, cd). uv = cv \<and> ud = cd) (cte_concerts events)))
       (cte_upsells events))"

definition concert_join :: "events_table \<Rightarrow> sale_row list \<Rightarrow> (string \<times> int) list" where
  "concert_join events ticket_sales =
     concat (map (\<lambda>(cid, cv, cd).
        map (\<lambda>ts. (cv, tickets ts)) (filter (\<lambda>ts. cid = event_id ts) ticket_sales))
       (cte_concerts events))"

definition concert_sales :: "events_table \<Rightarrow> sale_row list \<Rightarrow> (string \<times> int) list" where
  "concert_sales events ticket_sales =
     (let js = concert_join events ticket_sales
      in map (\<lambda>v. (v, sum_list (map snd (filter (\<lambda>j. fst j = v) js)))) (remdups (map fst js)))"

definition upsell_join :: "events_table \<Rightarrow> sale_row list \<Rightarrow> (string \<times> string \<times> int) list" where
  "upsell_join events ticket_sales =
     concat (map (\<lambda>(uid, un, v).
        map (\<lambda>ts. (v, un, tickets ts)) (filter (\<lambda>ts. uid = event_id ts) ticket_sales))
       (matched_upsells events))"

definition upsell_sales :: "events_table \<Rightarrow> sale_row list \<Rightarrow> (string \<times> nat \<times> int) list" where
  "upsell_sales events ticket_sales =
     (let js = upsell_join events ticket_sales
      in map (\<lambda>v. (v,
                length (remdups (map (\<lambda>j. fst (snd j)) (filter (\<lambda>j. fst j = v) js))),
                sum_list (map (\<lambda>j. snd (snd j)) (filter (\<lambda>j. fst j = v) js))))
           (remdups (map fst js)))"

text \<open>
  \<open>ROUND(x, 2)\<close> rounds half away from zero at the second decimal and returns a double;
  \<open>COALESCE(x, 0)\<close> replaces the \<open>NULL\<close> of an unmatched left join.
\<close>

definition round_half_away :: "real \<Rightarrow> int" where
  "round_half_away x = (if x \<ge> 0 then \<lfloor>x + 1 / 2\<rfloor> else - \<lfloor>- x + 1 / 2\<rfloor>)"

definition sql_round2 :: "(real \<Rightarrow> real) \<Rightarrow> real \<Rightarrow> real" where
  "sql_round2 rnd x = rnd (real_of_int (round_half_away (x * 100)) / 100)"

definition coalesce :: "'a option \<Rightarrow> 'a \<Rightarrow> 'a" where
  "coalesce x d = (case x of None \<Rightarrow> d | Some v \<Rightarrow> v)"

text \<open>
  The \<open>SELECT\<close> list for one row of \<open>concert_sales\<close> joined with one row of
  \<open>upsell_sales\<close>, or with none.
\<close>

definition select_row :: "(real \<Rightarrow> real) \<Rightarrow> string \<Rightarrow> int \<Rightarrow> int option \<Rightarrow> nat option \<Rightarrow> venue_row" where
  "select_row rnd v ct ut opts =
     \<lparr>row_venue_id = v, row_concert_tickets = ct, row_upsell_tickets = coalesce ut 0,
      upsell_options = coalesce opts 0,
      upsell_rate_pct =
        sql_round2 rnd (rnd (rnd (real_of_int (coalesce ut 0) * 100) / real_of_int ct))\<rparr>"

definition left_join_rows ::
  "(real \<Rightarrow> real) \<Rightarrow> (string \<times> nat \<times> int) list \<Rightarrow> string \<times> int \<Rightarrow> venue_row list" where
  "left_join_rows rnd us cs =
     (case cs of (v, ct) \<Rightarrow>
        (case filter (\<lambda>(v', opts, ut). v = v') us of
           [] \<Rightarrow> [select_row rnd v ct None None]
         | m # ms \<Rightarrow> map (\<lambda>(v', opts, ut). select_row rnd v ct (Some ut) (Some opts)) (m # ms)))"

text \<open>
  The final \<open>SELECT\<close>: left join, \<open>WHERE cs.concert_tickets > 0\<close>, and
  \<open>ORDER BY upsell_options DESC, upsell_rate_pct DESC\<close> (SQL leaves the order of ties
  open; the sort here keeps them in join order).
\<close>

definition QUERY :: "(real \<Rightarrow> real) \<Rightarrow> events_table \<Rightarrow> sale_row list \<Rightarrow> venue_row list" where
  "QUERY rnd events ticket_sales =
     (let joined = concat (map (left_join_rows rnd (upsell_sales events ticket_sales))
                             (concert_sales events ticket_sales));
          selected = filter (\<lambda>r. row_concert_tickets r > 0) joined
      in rev (sort_key (\<lambda>r. (upsell_options r, upsell_rate_pct r)) (rev selected)))"

section \<open>Ticket totals of a venue\<close>

text \<open>
  What the joins of the query add up, written over the \<open>events\<close> table: the tickets
  sold for an event; for a venue, the tickets of every concert row at the venue; and the
  tickets of every upsell row, once for each concert row at the venue that has the
  upsell's venue and date.
\<close>

definition event_sold :: "sale_row list \<Rightarrow> string \<Rightarrow> int" where
  "event_sold ticket_sales eid = sum_list (map tickets (filter (\<lambda>ts. eid = event_id ts) ticket_sales))"

definition concert_join_total :: "events_table \<Rightarrow> sale_row list \<Rightarrow> string \<Rightarrow> int" where
  "concert_join_total events ticket_sales v =
     sum_list (map (\<lambda>(cid, c). event_sold ticket_sales cid)
       (filter (\<lambda>(cid, c). is_tour_name (name c) \<and> venue_id c = v) events))"

definition concerts_matching :: "events_table \<Rightarrow> event \<Rightarrow> string \<Rightarrow> events_table" where
  "concerts_matching events u v =
     filter (\<lambda>(cid, c). is_tour_name (name c) \<and> venue_id c = v
                \<and> venue_id u = venue_id c \<and> event_dt u = event_dt c) events"

definition upsell_join_total :: "events_table \<Rightarrow> sale_row list \<Rightarrow> string \<Rightarrow> int" where
  "upsell_join_total events ticket_sales v =
     sum_list (map (\<lambda>(uid, u). int (length (concerts_matching events u v)) * event_sold ticket_sales uid)
       (filter (\<lambda>(uid, u). \<not> is_tour_name (name u)) events))"

text \<open>
  The tickets actually sold at a venue, each sale row counted once: the concert tickets
  are the sale rows of the events that are concerts at the venue; the upsell tickets are
  the sale rows of the events that are upsells with a concert at the venue on their venue
  and date.
\<close>

definition concert_at :: "events_table \<Rightarrow> string \<Rightarrow> string \<Rightarrow> bool" where
  "concert_at events v eid =
     list_ex (\<lambda>(cid, c). cid = eid \<and> is_tour_name (name c) \<and> venue_id c = v) events"

definition has_concert_at :: "events_table \<Rightarrow> string \<Rightarrow> event \<Rightarrow> bool" where
  "has_concert_at events v u =
     list_ex (\<lambda>(cid, c). is_tour_name (name c) \<and> venue_id c = v
                \<and> venue_id u = venue_id c \<and> event_dt u = event_dt c) events"

definition upsell_at :: "events_table \<Rightarrow> string \<Rightarrow> string \<Rightarrow> bool" where
  "upsell_at events v eid =
     list_ex (\<lambda>(uid, u). uid = eid \<and> \<not> is_tour_name (name u) \<and> has_concert_at events v u)
       events"

definition venue_concert_tickets :: "events_table \<Rightarrow> sale_row list \<Rightarrow> string \<Rightarrow> int" where
  "venue_concert_tickets events ticket_sales v =
     sum_list (map tickets (filter (\<lambda>ts. concert_at events v (event_id ts)) ticket_sales))"

definition venue_upsell_tickets :: "events_table \<Rightarrow> sale_row list \<Rightarrow> string \<Rightarrow> int" where
  "venue_upsell_tickets events ticket_sales v =
     sum_list (map tickets (filter (\<lambda>ts. upsell_at events v (event_id ts)) ticket_sales))"

text \<open>
  The data model's two keys: an event id names one event row, and no two concert rows
  share a venue and date.
\<close>

definition concert_keys :: "events_table \<Rightarrow> (string \<times> string) list" where
  "concert_keys events =
     map (\<lambda>(cid, c). (venue_id c, event_dt c))
       (filter (\<lambda>(cid, c). is_tour_name (name c)) events)"

text \<open>
  The rate in the words of the specification: upsell tickets divided by total tickets
  (concert tickets plus upsell tickets), times 100, rounded to two decimals.
\<close>

definition spec_upsell_rate :: "(real \<Rightarrow> real) \<Rightarrow> int \<Rightarrow> int \<Rightarrow> real" where
  "spec_upsell_rate rnd ut ct =
     sql_round2 rnd (rnd (rnd (real_of_int ut / real_of_int (ct + ut)) * 100))"

section \<open>Sale rows of a show\<close>

text \<open>
  The rows that the aggregation loop books on the show \<open>cid\<close>: those whose event is
  mapped to \<open>cid\<close>, split by the loop's test \<open>eid == cid\<close>.
\<close>

definition show_rows :: "(string \<rightharpoonup> string) \<Rightarrow> string \<Rightarrow> sale_row list \<Rightarrow> sale_row list" where
  "show_rows e2c cid rows = filter (\<lambda>r. e2c (event_id r) = Some cid) rows"

definition concert_rows :: "(string \<rightharpoonup> string) \<Rightarrow> string \<Rightarrow> sale_row list \<Rightarrow> sale_row list" where
  "concert_rows e2c cid rows =
     filter (\<lambda>r. e2c (event_id r) = Some cid \<and> event_id r = cid) rows"

definition upsell_rows :: "(string \<rightharpoonup> string) \<Rightarrow> string \<Rightarrow> sale_row list \<Rightarrow> sale_row list" where
  "upsell_rows e2c cid rows =
     filter (\<lambda>r. e2c (event_id r) = Some cid \<and> event_id r \<noteq> cid) rows"

definition sold :: "sale_row list \<Rightarrow> int" where
  "sold rows = sum_list (map tickets rows)"

text \<open>The value of \<open>upsell_pct\<close> once the division is known not to raise.\<close>

definition pct_value :: "(real \<Rightarrow> real) \<Rightarrow> int \<Rightarrow> int \<Rightarrow> real" where
  "pct_value rnd ut tot =
     (if tot > 0 then rnd (rnd (real_of_int ut / real_of_int tot) * 100) else 0)"

definition show_of ::
  "(real \<Rightarrow> real) \<Rightarrow> (string \<rightharpoonup> string) \<Rightarrow> sale_row list \<Rightarrow> string \<times> event \<Rightarrow> show" where
  "show_of rnd e2c rows p =
     \<lparr>concert_id = fst p, show_venue_id = venue_id (snd p), show_event_dt = event_dt (snd p),
      concert_name = name (snd p),
      concert_tickets = sold (concert_rows e2c (fst p) rows),
      upsell_tickets = sold (upsell_rows e2c (fst p) rows),
      total_tickets = sold (concert_rows e2c (fst p) rows) + sold (upsell_rows e2c (fst p) rows),
      upsell_pct = pct_value rnd (sold (upsell_rows e2c (fst p) rows))
                     (sold (concert_rows e2c (fst p) rows) + sold (upsell_rows e2c (fst p) rows)),
      timeseries = sort (map (\<lambda>r. (sales_minute r, tickets r)) (show_rows e2c (fst p) rows))\<rparr>"

text \<open>A sale row resolves to a concert when the mapping sends its event to a key of \<open>concerts\<close>.\<close>

definition resolves :: "(string \<rightharpoonup> string) \<Rightarrow> event dict \<Rightarrow> sale_row \<Rightarrow> bool" where
  "resolves e2c concerts r =
     (case e2c (event_id r) of None \<Rightarrow> False | Some cid \<Rightarrow> cid \<in> set (map fst concerts))"

text \<open>The concerts at a venue and date, in the order in which the dictionary enumerates them.\<close>

definition concerts_at :: "event dict \<Rightarrow> string \<times> string \<Rightarrow> event dict" where
  "concerts_at concerts key =
     filter (\<lambda>p. (venue_id (snd p), event_dt (snd p)) = key) concerts"

section \<open>A small tour\<close>

text \<open>
  Concert A with two sale rows and the upsell B at its venue and date, the upsell C with
  no concert at its venue and date, and concert D without sale rows.
\<close>

definition ex_concerts :: "event dict" where
  "ex_concerts =
     [(''A'', \<lparr>name = ''Super Awesome Tour - Harbor'', venue_id = ''1'',
               event_dt = ''2024-01-01T20:00''\<rparr>),
      (''D'', \<lparr>name = ''Super Awesome Tour - Dock'', venue_id = ''3'',
               event_dt = ''2024-01-02T20:00''\<rparr>)]"

definition ex_upsells :: "event dict" where
  "ex_upsells =
     [(''B'', \<lparr>name = ''VIP Lounge'', venue_id = ''1'', event_dt = ''2024-01-01T20:00''\<rparr>),
      (''C'', \<lparr>name = ''Meet and Greet'', venue_id = ''2'', event_dt = ''2024-01-05T20:00''\<rparr>)]"

definition ex_sales :: "sale_row list" where
  "ex_sales =
     [\<lparr>event_id = ''A'', sales_minute = ''2023-12-01T10:01'', tickets = 10\<rparr>,
      \<lparr>event_id = ''B'', sales_minute = ''2023-12-01T10:00'', tickets = 5\<rparr>,
      \<lparr>event_id = ''C'', sales_minute = ''2023-12-01T10:02'', tickets = 7\<rparr>,
      \<lparr>event_id = ''A'', sales_minute = ''2023-12-01T10:03'', tickets = 20\<rparr>]"

definition ex_map :: "string \<rightharpoonup> string" where
  "ex_map = [''A'' \<mapsto> ''A'', ''D'' \<mapsto> ''D'', ''B'' \<mapsto> ''A'']"

definition ex_show_A :: "show" where
  "ex_show_A =
     \<lparr>concert_id = ''A'', show_venue_id = ''1'', show_event_dt = ''2024-01-01T20:00'',
      concert_name = ''Super Awesome Tour - Harbor'', concert_tickets = 30, upsell_tickets = 5,
      total_tickets = 35, upsell_pct = 100 / 7,
      timeseries = [(''2023-12-01T10:00'', 5), (''2023-12-01T10:01'', 10),
                    (''2023-12-01T10:03'', 20)]\<rparr>"

definition ex_show_D :: "show" where
  "ex_show_D =
     \<lparr>concert_id = ''D'', show_venue_id = ''3'', show_event_dt = ''2024-01-02T20:00'',
      concert_name = ''Super Awesome Tour - Dock'', concert_tickets = 0, upsell_tickets = 0,
      total_tickets = 0, upsell_pct = 0, timeseries = []\<rparr>"

text \<open>The same tour with a second concert at the venue and date of concert A.\<close>

definition ex_twin_concerts :: "event dict" where
  "ex_twin_concerts =
     ex_concerts @
     [(''E'', \<lparr>name = ''Super Awesome Tour - Harbor Late'', venue_id = ''1'',
               event_dt = ''2024-01-01T20:00''\<rparr>)]"

text \<open>The one row that the query returns on the tables of the small tour.\<close>

definition ex_twin_venue_row :: venue_row where
  "ex_twin_venue_row =
     \<lparr>row_venue_id = ''1'', row_concert_tickets = 30, row_upsell_tickets = 10,
      upsell_options = 1, upsell_rate_pct = 3333 / 100\<rparr>"

definition ex_venue_row :: venue_row where
  "ex_venue_row =
     \<lparr>row_venue_id = ''1'', row_concert_tickets = 30, row_upsell_tickets = 5,
      upsell_options = 1, upsell_rate_pct = 1667 / 100\<rparr>"

section \<open>The aggregation in closed form\<close>

lemma sale_step_concert:
  "get_or (show_concert_tix (sale_step e2c r acc)) cid 0 =
     get_or (show_concert_tix acc) cid 0 + sold (concert_rows e2c cid [r])"
  by (auto simp: sale_step_def get_or_def concert_rows_def sold_def Let_def split: option.splits)

lemma sale_step_upsell:
  "get_or (show_upsell_tix (sale_step e2c r acc)) cid 0 =
     get_or (show_upsell_tix acc) cid 0 + sold (upsell_rows e2c cid [r])"
  by (auto simp: sale_step_def get_or_def upsell_rows_def sold_def Let_def split: option.splits)

lemma sale_step_series:
  "get_or (show_timeseries (sale_step e2c r acc)) cid [] =
     get_or (show_timeseries acc) cid []
       @ map (\<lambda>r. (sales_minute r, tickets r)) (show_rows e2c cid [r])"
  by (auto simp: sale_step_def get_or_def show_rows_def Let_def split: option.splits)

lemma sold_append: "sold (xs @ ys) = sold xs + sold ys"
  by (simp add: sold_def)

lemma fold_sale_step_concert:
  "get_or (show_concert_tix (fold (sale_step e2c) rows acc)) cid 0 =
     get_or (show_concert_tix acc) cid 0 + sold (concert_rows e2c cid rows)"
proof (induction rows arbitrary: acc)
  case Nil
  show ?case by (simp add: concert_rows_def sold_def)
next
  case (Cons r rows)
  have "concert_rows e2c cid (r # rows) = concert_rows e2c cid [r] @ concert_rows e2c cid rows"
    by (auto simp: concert_rows_def)
  then show ?case using Cons.IH [of "sale_step e2c r acc"]
    by (simp add: sale_step_concert sold_append)
qed

lemma fold_sale_step_upsell:
  "get_or (show_upsell_tix (fold (sale_step e2c) rows acc)) cid 0 =
     get_or (show_upsell_tix acc) cid 0 + sold (upsell_rows e2c cid rows)"
proof (induction rows arbitrary: acc)
  case Nil
  show ?case by (simp add: upsell_rows_def sold_def)
next
  case (Cons r rows)
  have "upsell_rows e2c cid (r # rows) = upsell_rows e2c cid [r] @ upsell_rows e2c cid rows"
    by (auto simp: upsell_rows_def)
  then show ?case using Cons.IH [of "sale_step e2c r acc"]
    by (simp add: sale_step_upsell sold_append)
qed

lemma fold_sale_step_series:
  "get_or (show_timeseries (fold (sale_step e2c) rows acc)) cid [] =
     get_or (show_timeseries acc) cid []
       @ map (\<lambda>r. (sales_minute r, tickets r)) (show_rows e2c cid rows)"
proof (induction rows arbitrary: acc)
  case Nil
  show ?case by (simp add: show_rows_def)
next
  case (Cons r rows)
  have "show_rows e2c cid (r # rows) = show_rows e2c cid [r] @ show_rows e2c cid rows"
    by (simp add: show_rows_def)
  then show ?case using Cons.IH [of "sale_step e2c r acc"]
    by (simp add: sale_step_series)
qed

lemma accumulate_concert:
  "get_or (show_concert_tix (accumulate e2c rows)) cid 0 = sold (concert_rows e2c cid rows)"
  by (simp add: accumulate_def fold_sale_step_concert) (simp add: get_or_def)

lemma accumulate_upsell:
  "get_or (show_upsell_tix (accumulate e2c rows)) cid 0 = sold (upsell_rows e2c cid rows)"
  by (simp add: accumulate_def fold_sale_step_upsell) (simp add: get_or_def)

lemma accumulate_series:
  "get_or (show_timeseries (accumulate e2c rows)) cid [] =
     map (\<lambda>r. (sales_minute r, tickets r)) (show_rows e2c cid rows)"
  by (simp add: accumulate_def fold_sale_step_series) (simp add: get_or_def)

lemma upsell_pct_of_value: "upsell_pct_of rnd ut tot = Inr (pct_value rnd ut tot)"
  by (simp add: upsell_pct_of_def truediv_def pct_value_def)

lemma make_show_eq: "make_show rnd (accumulate e2c rows) p = Inr (show_of rnd e2c rows p)"
  by (cases p) (simp add: make_show_def Let_def upsell_pct_of_value accumulate_concert
      accumulate_upsell accumulate_series show_of_def)

lemma build_shows_eq:
  "build_shows rnd (accumulate e2c rows) cs = Inr (map (show_of rnd e2c rows) cs)"
  by (induction cs) (simp_all add: make_show_eq)

lemma aggregate_eq:
  "aggregate_show_sales rnd rows e2c concerts events =
     Inr (sort_desc (map (show_of rnd e2c rows) concerts))"
  by (simp add: aggregate_show_sales_def build_shows_eq)

lemma set_sort_desc: "set (sort_desc ss) = set ss"
  by (simp add: sort_desc_def)

lemma in_shows_cases:
  assumes "aggregate_show_sales rnd rows e2c concerts events = Inr shows" and "s \<in> set shows"
  obtains p where "p \<in> set concerts" and "s = show_of rnd e2c rows p"
  using assms by (auto simp: aggregate_eq set_sort_desc)

section \<open>The example evaluated\<close>

lemma ex_build_show_map: "build_show_map ex_concerts ex_upsells = ex_map"
  by (simp add: build_show_map_def index_concerts_def link_upsell_def ex_concerts_def
      ex_upsells_def ex_map_def)

lemma ex_classify_events: "classify_events (ex_concerts @ ex_upsells) = (ex_concerts, ex_upsells)"
  by code_simp

lemma ex_aggregate:
  "aggregate_show_sales (\<lambda>x. x) ex_sales ex_map ex_concerts (ex_concerts @ ex_upsells)
     = Inr [ex_show_A, ex_show_D]"
  by (simp add: aggregate_show_sales_def accumulate_def sale_step_def get_or_def make_show_def
      upsell_pct_of_def truediv_def sort_desc_def ex_sales_def ex_map_def ex_concerts_def
      ex_show_A_def ex_show_D_def Let_def)

section \<open>Properties of the aggregation and the ranking\<close>

text \<open>
  Claim C1. The aggregation always returns a list of shows, and in every show of that list
  \<open>total_tickets\<close> is \<open>concert_tickets + upsell_tickets\<close>.
\<close>

theorem total_is_sum:
  "\<exists>shows. aggregate_show_sales rnd rows e2c concerts events = Inr shows \<and>
     (\<forall>s \<in> set shows. total_tickets s = concert_tickets s + upsell_tickets s)"
  by (auto simp: aggregate_eq set_sort_desc show_of_def)

theorem total_is_sum_witness:
  "aggregate_show_sales (\<lambda>x. x) ex_sales ex_map ex_concerts (ex_concerts @ ex_upsells)
     = Inr [ex_show_A, ex_show_D] \<and>
   total_tickets ex_show_A = concert_tickets ex_show_A + upsell_tickets ex_show_A \<and>
   total_tickets ex_show_D = concert_tickets ex_show_D + upsell_tickets ex_show_D"
  using total_is_sum [of "\<lambda>x. x" ex_sales ex_map ex_concerts "ex_concerts @ ex_upsells"]
  by (simp add: ex_aggregate)

lemma show_of_unmatched:
  "e2c (event_id r) = None \<Longrightarrow> show_of rnd e2c (xs @ r # ys) = show_of rnd e2c (xs @ ys)"
  by (rule ext) (simp add: show_of_def concert_rows_def upsell_rows_def show_rows_def)

text \<open>
  Claim C4. A sale row whose \<open>event_id\<close> is absent from the event-to-concert mapping is
  skipped without error: wherever it stands among the sale rows, the aggregation returns
  the very list of shows (totals, percentages and time series) that it returns without it.
\<close>

theorem unmatched_row_skipped:
  assumes "e2c (event_id r) = None"
  shows "\<exists>shows. aggregate_show_sales rnd (xs @ r # ys) e2c concerts events = Inr shows \<and>
           aggregate_show_sales rnd (xs @ ys) e2c concerts events = Inr shows"
  using assms by (simp add: aggregate_eq show_of_unmatched)

theorem unmatched_row_skipped_witness:
  "ex_map (event_id \<lparr>event_id = ''C'', sales_minute = ''2023-12-01T10:02'', tickets = 7\<rparr>) = None \<and>
   aggregate_show_sales (\<lambda>x. x) ex_sales ex_map ex_concerts (ex_concerts @ ex_upsells)
     = Inr [ex_show_A, ex_show_D] \<and>
   aggregate_show_sales (\<lambda>x. x)
     [\<lparr>event_id = ''A'', sales_minute = ''2023-12-01T10:01'', tickets = 10\<rparr>,
      \<lparr>event_id = ''B'', sales_minute = ''2023-12-01T10:00'', tickets = 5\<rparr>,
      \<lparr>event_id = ''A'', sales_minute = ''2023-12-01T10:03'', tickets = 20\<rparr>]
     ex_map ex_concerts (ex_concerts @ ex_upsells) = Inr [ex_show_A, ex_show_D]"
proof -
  let ?r = "\<lparr>event_id = ''C'', sales_minute = ''2023-12-01T10:02'', tickets = 7\<rparr>"
  let ?xs = "[\<lparr>event_id = ''A'', sales_minute = ''2023-12-01T10:01'', tickets = 10\<rparr>,
      \<lparr>event_id = ''B'', sales_minute = ''2023-12-01T10:00'', tickets = 5\<rparr>]"
  let ?ys = "[\<lparr>event_id = ''A'', sales_minute = ''2023-12-01T10:03'', tickets = 20\<rparr>]"
  have h: "ex_map (event_id ?r) = None" by (simp add: ex_map_def)
  have e: "ex_sales = ?xs @ ?r # ?ys" by (simp add: ex_sales_def)
  show ?thesis
    using h unmatched_row_skipped [where ?e2c = ex_map and ?r = ?r and ?rnd = "\<lambda>x. x" and ?xs = ?xs
        and ?ys = ?ys and ?concerts = ex_concerts and ?events = "ex_concerts @ ex_upsells"]
      ex_aggregate
    by (simp add: e)
qed

text \<open>
  Claim C7. The aggregation never raises the division error: it returns a list of shows,
  and in each of them \<open>upsell_pct\<close> is 0 when \<open>total_tickets\<close> is 0 and is
  \<open>upsell_tickets / total_tickets * 100\<close>, in the arithmetic of doubles, when
  \<open>total_tickets\<close> is positive.
\<close>

theorem upsell_pct_guarded:
  "\<exists>shows. aggregate_show_sales rnd rows e2c concerts events = Inr shows \<and>
     (\<forall>s \<in> set shows.
        (total_tickets s = 0 \<longrightarrow> upsell_pct s = 0) \<and>
        (total_tickets s > 0 \<longrightarrow>
           upsell_pct s = rnd (rnd (real_of_int (upsell_tickets s) / real_of_int (total_tickets s)) * 100)))"
  by (auto simp: aggregate_eq set_sort_desc show_of_def pct_value_def)

theorem upsell_pct_guarded_witness:
  "aggregate_show_sales (\<lambda>x. x) ex_sales ex_map ex_concerts (ex_concerts @ ex_upsells)
     = Inr [ex_show_A, ex_show_D] \<and>
   total_tickets ex_show_D = 0 \<and> upsell_pct ex_show_D = 0 \<and>
   total_tickets ex_show_A > 0 \<and>
   upsell_pct ex_show_A
     = real_of_int (upsell_tickets ex_show_A) / real_of_int (total_tickets ex_show_A) * 100"
  using upsell_pct_guarded [of "\<lambda>x. x" ex_sales ex_map ex_concerts "ex_concerts @ ex_upsells"]
  by (simp add: ex_aggregate) (simp add: ex_show_A_def ex_show_D_def)

lemma sold_nonneg: "\<forall>r \<in> set rows. 0 \<le> tickets r \<Longrightarrow> 0 \<le> sold (filter P rows)"
  by (auto simp: sold_def intro!: sum_list_nonneg)

lemma pct_value_bounds:
  assumes "mono rnd" and "rnd 0 = 0" and "rnd 1 = 1" and "rnd 100 = 100"
    and "0 \<le> ut" and "0 \<le> ct"
  shows "0 \<le> pct_value rnd ut (ct + ut) \<and> pct_value rnd ut (ct + ut) \<le> 100"
proof (cases "ct + ut > 0")
  case False
  then show ?thesis by (simp add: pct_value_def)
next
  case True
  let ?q = "real_of_int ut / real_of_int (ct + ut)"
  have q: "0 \<le> ?q" "?q \<le> 1" using assms(5,6) True by simp_all
  have rq: "0 \<le> rnd ?q" "rnd ?q \<le> 1"
    using monoD [OF assms(1) q(1)] monoD [OF assms(1) q(2)] assms(2,3) by simp_all
  then have "0 \<le> rnd ?q * 100" "rnd ?q * 100 \<le> 100" by simp_all
  then have "0 \<le> rnd (rnd ?q * 100)" "rnd (rnd ?q * 100) \<le> 100"
    using monoD [OF assms(1), of 0 "rnd ?q * 100"] monoD [OF assms(1), of "rnd ?q * 100" 100]
      assms(2,4) by simp_all
  with True show ?thesis by (simp add: pct_value_def)
qed

text \<open>
  Claim C10. When no sale row has a negative ticket count, \<open>upsell_pct\<close> of every show
  lies between 0 and 100. The rounding is any monotone function that leaves 0, 1 and 100
  unchanged, as rounding to the nearest double does.
\<close>

theorem upsell_pct_range:
  assumes "mono rnd" and "rnd 0 = 0" and "rnd 1 = 1" and "rnd 100 = 100"
    and "\<forall>r \<in> set rows. 0 \<le> tickets r"
    and "aggregate_show_sales rnd rows e2c concerts events = Inr shows"
    and "s \<in> set shows"
  shows "0 \<le> upsell_pct s \<and> upsell_pct s \<le> 100"
proof -
  from assms(6,7) obtain p where s: "s = show_of rnd e2c rows p"
    by (rule in_shows_cases)
  have "0 \<le> sold (upsell_rows e2c (fst p) rows)" "0 \<le> sold (concert_rows e2c (fst p) rows)"
    using assms(5) by (simp_all add: upsell_rows_def concert_rows_def sold_nonneg)
  from pct_value_bounds [OF assms(1-4) this] show ?thesis
    by (simp add: s show_of_def)
qed

theorem upsell_pct_range_witness:
  "mono (\<lambda>x::real. x) \<and> map tickets ex_sales = [10, 5, 7, 20] \<and>
   aggregate_show_sales (\<lambda>x. x) ex_sales ex_map ex_concerts (ex_concerts @ ex_upsells)
     = Inr [ex_show_A, ex_show_D] \<and>
   ex_show_A \<in> set [ex_show_A, ex_show_D] \<and>
   0 \<le> upsell_pct ex_show_A \<and> upsell_pct ex_show_A \<le> 100"
proof -
  have m: "mono (\<lambda>x::real. x)" by (simp add: mono_def)
  have n: "\<forall>r \<in> set ex_sales. 0 \<le> tickets r" by (simp add: ex_sales_def)
  have i: "ex_show_A \<in> set [ex_show_A, ex_show_D]" by simp
  show ?thesis
    using m i upsell_pct_range [OF m _ _ _ n ex_aggregate i] ex_aggregate
    by (simp add: ex_sales_def)
qed

text \<open>
  Claim C6. With \<open>n = 2\<close> and exactly one show with positive \<open>total_tickets\<close>, the
  top list and the bottom list are both that single show.
\<close>

theorem overlap_single_show:
  assumes "filter (\<lambda>s. total_tickets s > 0) shows = [s]"
  shows "get_top_bottom shows 2 = ([s], [s])"
  using assms by (simp add: get_top_bottom_def slice_to_def slice_from_def Let_def)

theorem overlap_single_show_witness:
  "filter (\<lambda>s. total_tickets s > 0) [ex_show_A, ex_show_D] = [ex_show_A] \<and>
   get_top_bottom [ex_show_A, ex_show_D] 2 = ([ex_show_A], [ex_show_A])"
proof -
  have h: "filter (\<lambda>s. total_tickets s > 0) [ex_show_A, ex_show_D] = [ex_show_A]"
    by (simp add: ex_show_A_def ex_show_D_def)
  show ?thesis using h overlap_single_show [OF h] by simp
qed


lemma sorted_sort_desc:
  "sorted_wrt (\<lambda>a b. total_tickets a \<ge> total_tickets b) (sort_desc ss)"
proof -
  have "sorted (map total_tickets (sort_key total_tickets (rev ss)))"
    by (rule sorted_sort_key)
  then have "sorted_wrt (\<lambda>a b. total_tickets a \<le> total_tickets b) (sort_key total_tickets (rev ss))"
    by (simp add: sorted_map)
  then show ?thesis
    by (simp add: sort_desc_def sorted_wrt_rev)
qed

lemma slice_to_take: "\<exists>k. slice_to xs n = take k xs"
  by (auto simp: slice_to_def)

lemma set_slice_from: "set (slice_from xs k) \<subseteq> set xs"
  by (auto simp: slice_from_def dest: in_set_dropD)

text \<open>
  Claim C5. The list returned by the aggregation is in descending order of
  \<open>total_tickets\<close>; hence, for every \<open>n\<close>, adjacent shows of the top list are in
  descending order and every show of the bottom list has positive \<open>total_tickets\<close>.
\<close>

theorem ranking_descending:
  assumes "aggregate_show_sales rnd rows e2c concerts events = Inr shows"
    and "get_top_bottom shows n = (top_n, bottom_n)"
  shows "sorted_wrt (\<lambda>a b. total_tickets a \<ge> total_tickets b) shows \<and>
         (\<forall>i. Suc i < length top_n \<longrightarrow> total_tickets (top_n ! i) \<ge> total_tickets (top_n ! Suc i)) \<and>
         (\<forall>s \<in> set bottom_n. total_tickets s > 0)"
proof -
  let ?ge = "\<lambda>a b. total_tickets a \<ge> total_tickets b"
  let ?ws = "filter (\<lambda>s. total_tickets s > 0) shows"
  have sh: "sorted_wrt ?ge shows"
    using assms(1) by (auto simp: aggregate_eq sorted_sort_desc)
  then have ws: "sorted_wrt ?ge ?ws"
    by (rule sorted_wrt_filter)
  obtain k where "slice_to ?ws n = take k ?ws"
    using slice_to_take by blast
  then have top_n: "top_n = take k ?ws"
    using assms(2) by (simp add: get_top_bottom_def Let_def)
  have "sorted_wrt ?ge top_n"
    unfolding top_n using ws by (rule sorted_wrt_take)
  then have adj: "\<forall>i. Suc i < length top_n \<longrightarrow> total_tickets (top_n ! i) \<ge> total_tickets (top_n ! Suc i)"
    by (auto dest: sorted_wrt_nth_less [where i = i and j = "Suc i" for i])
  have "bottom_n = slice_from ?ws (- n)"
    using assms(2) by (simp add: get_top_bottom_def Let_def)
  with set_slice_from [of ?ws "- n"] have "set bottom_n \<subseteq> set ?ws"
    by (simp only:)
  then have "\<forall>s \<in> set bottom_n. total_tickets s > 0"
    by auto
  with sh adj show ?thesis by blast
qed

lemma ex_top_bottom: "get_top_bottom [ex_show_A, ex_show_D] 2 = ([ex_show_A], [ex_show_A])"
  by (simp add: get_top_bottom_def slice_to_def slice_from_def Let_def ex_show_A_def ex_show_D_def)

theorem ranking_descending_witness:
  "aggregate_show_sales (\<lambda>x. x) ex_sales ex_map ex_concerts (ex_concerts @ ex_upsells)
     = Inr [ex_show_A, ex_show_D] \<and>
   get_top_bottom [ex_show_A, ex_show_D] 2 = ([ex_show_A], [ex_show_A]) \<and>
   total_tickets ex_show_A \<ge> total_tickets ex_show_D \<and> total_tickets ex_show_A > 0"
  using ranking_descending [OF ex_aggregate ex_top_bottom] ex_aggregate ex_top_bottom
  by simp

lemma length_sort_desc: "length (sort_desc ss) = length ss"
  by (simp add: sort_desc_def)

lemma filter_sort_desc: "filter P (sort_desc ss) = sort_desc (filter P ss)"
  by (simp add: sort_desc_def rev_filter [symmetric] filter_sort)

lemma one_item_per_key:
  "distinct (map fst xs) \<Longrightarrow> k \<in> fst ` set xs \<Longrightarrow> length (filter (\<lambda>p. fst p = k) xs) = 1"
proof (induction xs)
  case Nil
  then show ?case by simp
next
  case (Cons x xs)
  show ?case
  proof (cases "fst x = k")
    case True
    with Cons.prems(1) have "filter (\<lambda>p. fst p = k) xs = []"
      by (auto simp: filter_empty_conv image_iff)
    with True show ?thesis by simp
  next
    case False
    with Cons show ?thesis by auto
  qed
qed

lemma sold_show_rows:
  "sold (concert_rows e2c cid rows) + sold (upsell_rows e2c cid rows) = sold (show_rows e2c cid rows)"
  by (induction rows) (auto simp: concert_rows_def upsell_rows_def show_rows_def sold_def)

text \<open>
  Claim C2. For a concert dictionary (distinct keys) the aggregation returns, for every
  concert, exactly one show with that concert's id; every show carries the id of a concert;
  a show with no matching sale row has \<open>total_tickets = 0\<close>; and there are as many shows
  as concerts.
\<close>

theorem one_show_per_concert:
  assumes "distinct (map fst concerts)"
  shows "\<exists>shows. aggregate_show_sales rnd rows e2c concerts events = Inr shows \<and>
           (\<forall>cid \<in> fst ` set concerts. length (filter (\<lambda>s. concert_id s = cid) shows) = 1) \<and>
           (\<forall>s \<in> set shows. concert_id s \<in> fst ` set concerts) \<and>
           (\<forall>s \<in> set shows. show_rows e2c (concert_id s) rows = [] \<longrightarrow> total_tickets s = 0) \<and>
           length shows = length concerts"
proof -
  let ?shows = "sort_desc (map (show_of rnd e2c rows) concerts)"
  have cid: "concert_id \<circ> show_of rnd e2c rows = fst"
    by (rule ext) (simp add: show_of_def)
  have one: "\<forall>cid \<in> fst ` set concerts. length (filter (\<lambda>s. concert_id s = cid) ?shows) = 1"
  proof
    fix k assume k: "k \<in> fst ` set concerts"
    have "filter (\<lambda>s. concert_id s = k) (map (show_of rnd e2c rows) concerts)
            = map (show_of rnd e2c rows) (filter (\<lambda>p. fst p = k) concerts)"
      by (simp add: filter_map o_def show_of_def)
    then show "length (filter (\<lambda>s. concert_id s = k) ?shows) = 1"
      using one_item_per_key [OF assms k] by (simp add: filter_sort_desc length_sort_desc)
  qed
  have mem: "\<forall>s \<in> set ?shows. concert_id s \<in> fst ` set concerts"
    by (auto simp: set_sort_desc show_of_def)
  have zero: "\<forall>s \<in> set ?shows. show_rows e2c (concert_id s) rows = [] \<longrightarrow> total_tickets s = 0"
  proof
    fix s assume "s \<in> set ?shows"
    then obtain p where s: "s = show_of rnd e2c rows p"
      by (auto simp: set_sort_desc)
    have "total_tickets s = sold (show_rows e2c (concert_id s) rows)"
      by (simp add: s show_of_def sold_show_rows)
    then show "show_rows e2c (concert_id s) rows = [] \<longrightarrow> total_tickets s = 0"
      by (simp add: sold_def)
  qed
  have "length ?shows = length concerts"
    by (simp add: length_sort_desc)
  with one mem zero show ?thesis
    by (simp add: aggregate_eq)
qed

theorem one_show_per_concert_witness:
  "distinct (map fst ex_concerts) \<and>
   aggregate_show_sales (\<lambda>x. x) ex_sales ex_map ex_concerts (ex_concerts @ ex_upsells)
     = Inr [ex_show_A, ex_show_D] \<and>
   length (filter (\<lambda>s. concert_id s = ''A'') [ex_show_A, ex_show_D]) = 1 \<and>
   length (filter (\<lambda>s. concert_id s = ''D'') [ex_show_A, ex_show_D]) = 1 \<and>
   show_rows ex_map ''D'' ex_sales = [] \<and> total_tickets ex_show_D = 0"
proof -
  have d: "distinct (map fst ex_concerts)" by (simp add: ex_concerts_def)
  have k: "fst ` set ex_concerts = {''A'', ''D''}" by (simp add: ex_concerts_def)
  have r: "show_rows ex_map ''D'' ex_sales = []"
    by (simp add: show_rows_def ex_map_def ex_sales_def)
  have c: "concert_id ex_show_D = ''D''" by (simp add: ex_show_D_def)
  show ?thesis
    using d r one_show_per_concert [OF d, of "\<lambda>x. x" ex_sales ex_map "ex_concerts @ ex_upsells"]
    by (simp add: ex_aggregate k c)
qed

lemma sum_list_insort_key:
  "sum_list (map f (insort_key g x xs)) = f x + sum_list (map f xs)"
  for f :: "'a \<Rightarrow> int"
  by (induction xs) simp_all

lemma sum_list_sort_key:
  "sum_list (map f (sort_key g xs)) = sum_list (map f xs)"
  for f :: "'a \<Rightarrow> int"
  by (induction xs) (simp_all add: sum_list_insort_key)

lemma sum_list_sort_desc:
  "sum_list (map total_tickets (sort_desc ss)) = sum_list (map total_tickets ss)"
  by (simp add: sort_desc_def sum_list_sort_key flip: rev_map)

lemma sold_filter_disj:
  "\<forall>x. \<not> (P x \<and> Q x) \<Longrightarrow>
     sold (filter (\<lambda>x. P x \<or> Q x) xs) = sold (filter P xs) + sold (filter Q xs)"
  by (induction xs) (auto simp: sold_def)

lemma sold_per_key:
  "distinct ks \<Longrightarrow>
     sum_list (map (\<lambda>k. sold (show_rows e2c k rows)) ks)
       = sold (filter (\<lambda>r. case e2c (event_id r) of None \<Rightarrow> False | Some cid \<Rightarrow> cid \<in> set ks) rows)"
proof (induction ks)
  case Nil
  then show ?case by (simp add: sold_def split: option.splits)
next
  case (Cons k ks)
  let ?P = "\<lambda>r. e2c (event_id r) = Some k"
  let ?Q = "\<lambda>r. case e2c (event_id r) of None \<Rightarrow> False | Some cid \<Rightarrow> cid \<in> set ks"
  have disj: "\<forall>r. \<not> (?P r \<and> ?Q r)"
    using Cons.prems by auto
  have eq: "(\<lambda>r. case e2c (event_id r) of None \<Rightarrow> False | Some cid \<Rightarrow> cid \<in> set (k # ks))
          = (\<lambda>r. ?P r \<or> ?Q r)"
    by (rule ext) (auto split: option.splits)
  have "sum_list (map (\<lambda>k. sold (show_rows e2c k rows)) (k # ks))
          = sold (filter ?P rows) + sold (filter ?Q rows)"
    using Cons.IH Cons.prems by (simp add: show_rows_def)
  also have "\<dots> = sold (filter (\<lambda>r. ?P r \<or> ?Q r) rows)"
    by (rule sold_filter_disj [OF disj, symmetric])
  finally show ?case
    by (simp only: eq)
qed

lemma total_sold:
  assumes "distinct (map fst concerts)"
  shows "sum_list (map total_tickets (sort_desc (map (show_of rnd e2c rows) concerts)))
           = sold (filter (resolves e2c concerts) rows)"
proof -
  have "total_tickets \<circ> show_of rnd e2c rows = (\<lambda>k. sold (show_rows e2c k rows)) \<circ> fst"
    by (rule ext) (simp add: show_of_def sold_show_rows)
  then show ?thesis
    using sold_per_key [OF assms, of e2c rows]
    by (simp add: sum_list_sort_desc resolves_def [abs_def])
qed

text \<open>
  Claim C8. The sum of \<open>total_tickets\<close> over the returned shows is at most the sum of the
  ticket counts of the sale rows whose event the mapping sends to a concert (by
  \<open>total_sold\<close> the two sums are equal).
\<close>

theorem shows_total_bounded:
  assumes "distinct (map fst concerts)"
    and "aggregate_show_sales rnd rows e2c concerts events = Inr shows"
  shows "sum_list (map total_tickets shows)
           \<le> sum_list (map tickets (filter (resolves e2c concerts) rows))"
  using assms(2) total_sold [OF assms(1), of rnd e2c rows] by (simp add: aggregate_eq sold_def)

theorem shows_total_bounded_witness:
  "distinct (map fst ex_concerts) \<and>
   aggregate_show_sales (\<lambda>x. x) ex_sales ex_map ex_concerts (ex_concerts @ ex_upsells)
     = Inr [ex_show_A, ex_show_D] \<and>
   sum_list (map total_tickets [ex_show_A, ex_show_D]) = 35 \<and>
   sum_list (map tickets (filter (resolves ex_map ex_concerts) ex_sales)) = 35 \<and>
   sum_list (map total_tickets [ex_show_A, ex_show_D])
     \<le> sum_list (map tickets (filter (resolves ex_map ex_concerts) ex_sales))"
proof -
  have d: "distinct (map fst ex_concerts)" by (simp add: ex_concerts_def)
  have l: "sum_list (map total_tickets [ex_show_A, ex_show_D]) = 35"
    by (simp add: ex_show_A_def ex_show_D_def)
  have r: "sum_list (map tickets (filter (resolves ex_map ex_concerts) ex_sales)) = 35"
    by (simp add: resolves_def ex_map_def ex_concerts_def ex_sales_def)
  show ?thesis
    using d l r shows_total_bounded [OF d ex_aggregate] ex_aggregate by simp
qed

section \<open>Properties of the linker\<close>

lemma index_concerts_fold:
  "fold (\<lambda>(cid, c) m. m((venue_id c, event_dt c) \<mapsto> cid)) cs m0 key =
     (case concerts_at cs key of [] \<Rightarrow> m0 key | p # ps \<Rightarrow> Some (fst (last (p # ps))))"
proof (induction cs arbitrary: m0)
  case Nil
  show ?case by (simp add: concerts_at_def)
next
  case (Cons c cs)
  show ?case
    by (simp only: fold_simps o_apply Cons.IH)
      (cases c, auto simp: concerts_at_def split: list.splits)
qed

lemma index_concerts_eq:
  "index_concerts concerts key =
     (if concerts_at concerts key = [] then None
      else Some (fst (last (concerts_at concerts key))))"
  by (simp add: index_concerts_def index_concerts_fold split: list.splits)

lemma self_map_fold:
  "fold (\<lambda>(cid, c) m. m(cid \<mapsto> cid)) cs m0 x = (if x \<in> fst ` set cs then Some x else m0 x)"
  by (induction cs arbitrary: m0) (auto simp: image_iff)

lemma link_upsell_fold:
  "distinct (map fst us) \<Longrightarrow>
     fold (link_upsell idx) us m0 x =
       (case map_of us x of
          None \<Rightarrow> m0 x
        | Some u \<Rightarrow> (case idx (venue_id u, event_dt u) of None \<Rightarrow> m0 x | Some cid \<Rightarrow> Some cid))"
proof (induction us arbitrary: m0)
  case Nil
  show ?case by simp
next
  case (Cons p us)
  obtain uid u where p: "p = (uid, u)" by (cases p)
  from Cons.prems have none: "map_of us uid = None" and d: "distinct (map fst us)"
    by (auto simp: p map_of_eq_None_iff)
  show ?case
    by (simp only: fold_simps o_apply Cons.IH [OF d])
      (auto simp: p none link_upsell_def split: option.splits)
qed

lemma build_show_map_eq:
  assumes "distinct (map fst upsells)"
  shows "build_show_map concerts upsells x =
           (case map_of upsells x of
              None \<Rightarrow> (if x \<in> fst ` set concerts then Some x else None)
            | Some u \<Rightarrow>
                (case index_concerts concerts (venue_id u, event_dt u) of
                   None \<Rightarrow> (if x \<in> fst ` set concerts then Some x else None)
                 | Some cid \<Rightarrow> Some cid))"
  by (simp add: build_show_map_def Let_def link_upsell_fold [OF assms] self_map_fold
      split: option.splits)

text \<open>
  Claim C3. For the dictionaries that the classifier hands to the linker (upsell keys
  distinct, no key shared with the concerts), the mapping sends every concert id to itself,
  and sends an upsell id to a concert id exactly when some concert has the upsell's
  \<open>(venue_id, event_dt)\<close>: the upsell is absent from the mapping when there is none, and
  is sent to the id of the last such concert in enumeration order otherwise.
\<close>

theorem linker_mapping:
  assumes "distinct (map fst upsells)"
    and "fst ` set concerts \<inter> fst ` set upsells = {}"
  shows "(\<forall>cid \<in> fst ` set concerts. build_show_map concerts upsells cid = Some cid) \<and>
         (\<forall>(uid, u) \<in> set upsells.
            ((\<exists>cid \<in> fst ` set concerts. build_show_map concerts upsells uid = Some cid) \<longleftrightarrow>
             (\<exists>(cid, c) \<in> set concerts. venue_id c = venue_id u \<and> event_dt c = event_dt u)) \<and>
            (concerts_at concerts (venue_id u, event_dt u) = [] \<longrightarrow>
               build_show_map concerts upsells uid = None) \<and>
            (concerts_at concerts (venue_id u, event_dt u) \<noteq> [] \<longrightarrow>
               build_show_map concerts upsells uid
                 = Some (fst (last (concerts_at concerts (venue_id u, event_dt u))))))"
proof (intro conjI ballI)
  fix cid assume c: "cid \<in> fst ` set concerts"
  with assms(2) have "cid \<notin> fst ` set upsells" by blast
  then have "map_of upsells cid = None" by (simp add: map_of_eq_None_iff)
  with c show "build_show_map concerts upsells cid = Some cid"
    by (simp add: build_show_map_eq [OF assms(1)])
next
  fix p assume p: "p \<in> set upsells"
  obtain uid u where pu: "p = (uid, u)" by (cases p)
  let ?at = "concerts_at concerts (venue_id u, event_dt u)"
  from p pu assms(1) have m: "map_of upsells uid = Some u" by simp
  from p pu assms(2) have n: "uid \<notin> fst ` set concerts" by force
  have v: "build_show_map concerts upsells uid
             = (if ?at = [] then None else Some (fst (last ?at)))"
    by (simp add: build_show_map_eq [OF assms(1)] m n index_concerts_eq)
  have ne: "?at \<noteq> [] \<longleftrightarrow>
              (\<exists>(cid, c) \<in> set concerts. venue_id c = venue_id u \<and> event_dt c = event_dt u)"
    by (force simp: concerts_at_def filter_empty_conv)
  have "?at \<noteq> [] \<Longrightarrow> last ?at \<in> set concerts"
    using last_in_set [of ?at] by (auto simp: concerts_at_def)
  then have "?at \<noteq> [] \<Longrightarrow> fst (last ?at) \<in> fst ` set concerts"
    by (rule imageI)
  with v ne show "case p of (uid, u) \<Rightarrow>
            ((\<exists>cid \<in> fst ` set concerts. build_show_map concerts upsells uid = Some cid) \<longleftrightarrow>
             (\<exists>(cid, c) \<in> set concerts. venue_id c = venue_id u \<and> event_dt c = event_dt u)) \<and>
            (concerts_at concerts (venue_id u, event_dt u) = [] \<longrightarrow>
               build_show_map concerts upsells uid = None) \<and>
            (concerts_at concerts (venue_id u, event_dt u) \<noteq> [] \<longrightarrow>
               build_show_map concerts upsells uid
                 = Some (fst (last (concerts_at concerts (venue_id u, event_dt u)))))"
    by (auto simp: pu)
qed

theorem linker_mapping_witness:
  "distinct (map fst ex_upsells) \<and>
   fst ` set ex_twin_concerts \<inter> fst ` set ex_upsells = {} \<and>
   build_show_map ex_twin_concerts ex_upsells ''A'' = Some ''A'' \<and>
   build_show_map ex_twin_concerts ex_upsells ''D'' = Some ''D'' \<and>
   build_show_map ex_twin_concerts ex_upsells ''E'' = Some ''E'' \<and>
   build_show_map ex_twin_concerts ex_upsells ''B'' = Some ''E'' \<and>
   build_show_map ex_twin_concerts ex_upsells ''C'' = None"
proof -
  have d: "distinct (map fst ex_upsells)" by (simp add: ex_upsells_def)
  have j: "fst ` set ex_twin_concerts \<inter> fst ` set ex_upsells = {}"
    by (simp add: ex_twin_concerts_def ex_concerts_def ex_upsells_def)
  show ?thesis
    using d j linker_mapping [OF d j]
    by (simp add: ex_twin_concerts_def ex_concerts_def ex_upsells_def concerts_at_def)
qed

lemma dict_set_fresh: "k \<notin> fst ` set d \<Longrightarrow> dict_set d k v = d @ [(k, v)]"
  by (induction d) (auto simp: image_iff)

lemma classify_fold:
  "distinct (map fst es) \<Longrightarrow> fst ` set es \<inter> (fst ` set cs \<union> fst ` set us) = {} \<Longrightarrow>
     fold classify_step es (cs, us) =
       (cs @ filter (\<lambda>p. is_tour_name (name (snd p))) es,
        us @ filter (\<lambda>p. \<not> is_tour_name (name (snd p))) es)"
proof (induction es arbitrary: cs us)
  case Nil
  show ?case by simp
next
  case (Cons e es)
  obtain eid ev where e: "e = (eid, ev)" by (cases e)
  from Cons.prems have f: "eid \<notin> fst ` set cs" "eid \<notin> fst ` set us" "eid \<notin> fst ` set es"
    and d: "distinct (map fst es)"
    and i: "fst ` set es \<inter> (fst ` set cs \<union> fst ` set us) = {}"
    by (auto simp: e)
  show ?case
  proof (cases "is_tour_name (name ev)")
    case True
    have "fst ` set es \<inter> (fst ` set (cs @ [(eid, ev)]) \<union> fst ` set us) = {}"
      using i f(3) by auto
    from Cons.IH [OF d this] True f(1) show ?thesis
      by (simp add: e classify_step_def dict_set_fresh)
  next
    case False
    have "fst ` set es \<inter> (fst ` set cs \<union> fst ` set (us @ [(eid, ev)])) = {}"
      using i f(3) by auto
    from Cons.IH [OF d this] False f(2) show ?thesis
      by (simp add: e classify_step_def dict_set_fresh)
  qed
qed

lemma classify_events_eq:
  "distinct (map fst events) \<Longrightarrow>
     classify_events events =
       (filter (\<lambda>p. is_tour_name (name (snd p))) events,
        filter (\<lambda>p. \<not> is_tour_name (name (snd p))) events)"
  using classify_fold [of events "[]" "[]"] by (simp add: classify_events_def)

lemma classify_events_disjoint:
  assumes "distinct (map fst events)" and "classify_events events = (concerts, upsells)"
  shows "distinct (map fst concerts) \<and> distinct (map fst upsells) \<and>
         fst ` set concerts \<inter> fst ` set upsells = {}"
proof -
  from assms have c: "concerts = filter (\<lambda>p. is_tour_name (name (snd p))) events"
    and u: "upsells = filter (\<lambda>p. \<not> is_tour_name (name (snd p))) events"
    by (simp_all add: classify_events_eq)
  have "\<And>p q. p \<in> set events \<Longrightarrow> q \<in> set events \<Longrightarrow> fst p = fst q \<Longrightarrow> p = q"
    using assms(1) by (metis distinct_map inj_onD)
  then have "fst ` set concerts \<inter> fst ` set upsells = {}"
    unfolding c u by fastforce
  with assms(1) show ?thesis
    by (simp add: c u distinct_map_filter)
qed

text \<open>
  The linker sends events to concerts only, so on its mapping a sale row resolves to a
  concert exactly when its event is mapped at all.
\<close>

lemma build_show_map_range:
  assumes "distinct (map fst upsells)" and "build_show_map concerts upsells x = Some cid"
  shows "cid \<in> fst ` set concerts"
proof -
  have at: "concerts_at concerts key \<noteq> [] \<Longrightarrow>
              fst (last (concerts_at concerts key)) \<in> fst ` set concerts" for key
    using last_in_set [of "concerts_at concerts key"] by (auto simp: concerts_at_def)
  from assms(2) show ?thesis
    by (auto simp: build_show_map_eq [OF assms(1)] index_concerts_eq at
        split: option.splits if_splits)
qed

lemma build_show_map_resolves:
  assumes "distinct (map fst upsells)"
  shows "resolves (build_show_map concerts upsells) concerts r
           \<longleftrightarrow> build_show_map concerts upsells (event_id r) \<noteq> None"
  using build_show_map_range [OF assms] by (auto simp: resolves_def split: option.splits)

section \<open>Properties of the upsell-rate query\<close>

lemma sum_concat_map:
  "sum_list (map f (filter P (concat (map g xs))))
     = sum_list (map (\<lambda>x. sum_list (map f (filter P (g x)))) xs)"
  for f :: "'b \<Rightarrow> int"
  by (induction xs) simp_all

lemma sum_if_filter:
  "sum_list (map (\<lambda>x. if P x then f x else 0) xs) = sum_list (map f (filter P xs))"
  for f :: "'a \<Rightarrow> int"
  by (induction xs) simp_all

lemma sum_const_if:
  "sum_list (map (\<lambda>x. if P x then a else 0) xs) = int (length (filter P xs)) * a"
  for a :: int
  by (induction xs) (simp_all add: algebra_simps)

lemma concert_join_venue:
  "sum_list (map snd (filter (\<lambda>j. fst j = v) (concert_join events ticket_sales)))
     = concert_join_total events ticket_sales v"
proof -
  have row: "sum_list (map snd (filter (\<lambda>j. fst j = v)
                 (map (\<lambda>ts. (cv, tickets ts)) (filter (\<lambda>ts. cid = event_id ts) ticket_sales))))
               = (if cv = v then event_sold ticket_sales cid else 0)" for cid cv
    by (simp add: event_sold_def filter_map o_def)
  have "sum_list (map snd (filter (\<lambda>j. fst j = v) (concert_join events ticket_sales)))
          = sum_list (map (\<lambda>p. if venue_id (snd p) = v then event_sold ticket_sales (fst p) else 0)
              (filter (\<lambda>p. is_tour_name (name (snd p))) events))"
    by (simp add: concert_join_def cte_concerts_def sum_concat_map row o_def case_prod_unfold)
  also have "\<dots> = sum_list (map (\<lambda>p. event_sold ticket_sales (fst p))
                      (filter (\<lambda>p. venue_id (snd p) = v) (filter (\<lambda>p. is_tour_name (name (snd p))) events)))"
    by (rule sum_if_filter)
  also have "\<dots> = concert_join_total events ticket_sales v"
    by (simp add: concert_join_total_def case_prod_unfold conj_commute)
  finally show ?thesis .
qed

lemma matching_count:
  "length (filter (\<lambda>c. venue_id u = fst (snd c) \<and> event_dt u = snd (snd c) \<and> fst (snd c) = v)
       (cte_concerts events))
     = length (concerts_matching events u v)"
  by (induction events) (auto simp: cte_concerts_def concerts_matching_def)

lemma upsell_join_venue:
  "sum_list (map (\<lambda>j. snd (snd j)) (filter (\<lambda>j. fst j = v) (upsell_join events ticket_sales)))
     = upsell_join_total events ticket_sales v"
proof -
  have row: "sum_list (map (\<lambda>j. snd (snd j)) (filter (\<lambda>j. fst j = v)
                 (map (\<lambda>ts. (cv, un, tickets ts)) (filter (\<lambda>ts. uid = event_id ts) ticket_sales))))
               = (if cv = v then event_sold ticket_sales uid else 0)" for uid un cv
    by (simp add: event_sold_def filter_map o_def)
  have "sum_list (map (\<lambda>j. snd (snd j)) (filter (\<lambda>j. fst j = v) (upsell_join events ticket_sales)))
          = sum_list (map (\<lambda>m. if snd (snd m) = v then event_sold ticket_sales (fst m) else 0)
              (matched_upsells events))"
    by (simp add: upsell_join_def sum_concat_map row case_prod_unfold)
  also have "\<dots> = sum_list (map (\<lambda>m. if snd (snd m) = v then event_sold ticket_sales (fst m) else 0)
                      (filter (\<lambda>m. True) (matched_upsells events)))"
    by simp
  also have "\<dots> = sum_list (map (\<lambda>p. int (length (concerts_matching events (snd p) v))
                                    * event_sold ticket_sales (fst p))
                      (filter (\<lambda>p. \<not> is_tour_name (name (snd p))) events))"
    unfolding matched_upsells_def sum_concat_map
    by (simp add: cte_upsells_def o_def case_prod_unfold sum_const_if matching_count
        cong: if_cong)
  also have "\<dots> = upsell_join_total events ticket_sales v"
    by (simp add: upsell_join_total_def case_prod_unfold)
  finally show ?thesis .
qed

lemma concert_sales_total:
  "(v, ct) \<in> set (concert_sales events ticket_sales) \<Longrightarrow>
     ct = concert_join_total events ticket_sales v"
  by (auto simp: concert_sales_def Let_def concert_join_venue)

lemma upsell_sales_total:
  "(v, opts, ut) \<in> set (upsell_sales events ticket_sales) \<Longrightarrow>
     ut = upsell_join_total events ticket_sales v"
  by (auto simp: upsell_sales_def Let_def upsell_join_venue)

lemma upsell_sales_none:
  assumes "filter (\<lambda>(v', opts, ut). v = v') (upsell_sales events ticket_sales) = []"
  shows "upsell_join_total events ticket_sales v = 0"
proof -
  from assms have "v \<notin> fst ` set (upsell_join events ticket_sales)"
    by (auto simp: upsell_sales_def Let_def filter_empty_conv image_iff)
  then have "filter (\<lambda>j. fst j = v) (upsell_join events ticket_sales) = []"
    by (auto simp: filter_empty_conv)
  with upsell_join_venue [of v events ticket_sales] show ?thesis by simp
qed

lemma left_join_row:
  assumes "r \<in> set (left_join_rows rnd (upsell_sales events ticket_sales) (v, ct))"
  shows "(\<exists>opts. r = select_row rnd v ct (Some (upsell_join_total events ticket_sales v))
                    (Some opts))
         \<or> r = select_row rnd v ct None None \<and> upsell_join_total events ticket_sales v = 0"
proof (cases "filter (\<lambda>(v', opts, ut). v = v') (upsell_sales events ticket_sales)")
  case Nil
  with assms upsell_sales_none [OF Nil] show ?thesis
    by (simp add: left_join_rows_def)
next
  case (Cons m ms)
  with assms have "r \<in> set (map (\<lambda>(v', opts, ut). select_row rnd v ct (Some ut) (Some opts))
                     (filter (\<lambda>(v', opts, ut). v = v') (upsell_sales events ticket_sales)))"
    by (simp add: left_join_rows_def)
  then obtain opts ut where "(v, opts, ut) \<in> set (upsell_sales events ticket_sales)"
    and r: "r = select_row rnd v ct (Some ut) (Some opts)"
    by auto
  from upsell_sales_total [OF this(1)] r show ?thesis
    by blast
qed

lemma query_row:
  assumes "r \<in> set (QUERY rnd events ticket_sales)"
  obtains v ct where "(v, ct) \<in> set (concert_sales events ticket_sales)"
    and "r \<in> set (left_join_rows rnd (upsell_sales events ticket_sales) (v, ct))"
    and "row_concert_tickets r > 0"
  using assms by (auto simp: QUERY_def Let_def)

lemma sold_by_event:
  "distinct (map fst xs) \<Longrightarrow>
     sum_list (map (\<lambda>p. event_sold ticket_sales (fst p)) (filter P xs))
       = sum_list (map tickets
           (filter (\<lambda>ts. list_ex (\<lambda>p. fst p = event_id ts \<and> P p) xs) ticket_sales))"
proof (induction xs)
  case Nil
  show ?case by simp
next
  case (Cons p xs)
  let ?A = "\<lambda>ts. fst p = event_id ts \<and> P p"
  let ?B = "\<lambda>ts. list_ex (\<lambda>q. fst q = event_id ts \<and> P q) xs"
  from Cons.prems have fresh: "fst p \<notin> fst ` set xs" and d: "distinct (map fst xs)"
    by simp_all
  have disj: "\<forall>ts. \<not> (?A ts \<and> ?B ts)"
    using fresh by (auto simp: list_ex_iff image_iff)
  have "sum_list (map (\<lambda>p. event_sold ticket_sales (fst p)) (filter P (p # xs)))
          = sold (filter ?A ticket_sales) + sold (filter ?B ticket_sales)"
    using Cons.IH [OF d] by (auto simp: sold_def event_sold_def)
  also have "\<dots> = sold (filter (\<lambda>ts. ?A ts \<or> ?B ts) ticket_sales)"
    by (rule sold_filter_disj [OF disj, symmetric])
  finally show ?case
    by (simp add: sold_def)
qed

lemma concert_join_total_once:
  assumes "distinct (map fst events)"
  shows "concert_join_total events ticket_sales v = venue_concert_tickets events ticket_sales v"
  using sold_by_event [OF assms,
      of ticket_sales "\<lambda>p. is_tour_name (name (snd p)) \<and> venue_id (snd p) = v"]
  by (simp add: concert_join_total_def venue_concert_tickets_def concert_at_def
      case_prod_unfold)

lemma at_most_one_per_key:
  "distinct (map f (filter T xs)) \<Longrightarrow> length (filter (\<lambda>x. T x \<and> f x = k \<and> R x) xs) \<le> 1"
proof (induction xs)
  case Nil
  show ?case by simp
next
  case (Cons x xs)
  show ?case
  proof (cases "T x \<and> f x = k \<and> R x")
    case True
    with Cons.prems have "f x \<notin> f ` set (filter T xs)" by simp
    with True have "filter (\<lambda>x. T x \<and> f x = k \<and> R x) xs = []"
      by (fastforce simp: filter_empty_conv image_iff)
    with True show ?thesis by simp
  next
    case False
    from Cons.prems have "distinct (map f (filter T xs))"
      by (simp split: if_splits)
    from Cons.IH [OF this] False show ?thesis by auto
  qed
qed

lemma concerts_matching_once:
  assumes "distinct (concert_keys events)"
  shows "int (length (concerts_matching events u v)) * a
           = (if has_concert_at events v u then a else 0)"
proof -
  have eq: "concerts_matching events u v
          = filter (\<lambda>p. is_tour_name (name (snd p))
                      \<and> (venue_id (snd p), event_dt (snd p)) = (venue_id u, event_dt u)
                      \<and> venue_id (snd p) = v) events"
    unfolding concerts_matching_def by (rule filter_cong) auto
  have "length (concerts_matching events u v) \<le> 1"
    unfolding eq using assms
    by (intro at_most_one_per_key) (simp add: concert_keys_def case_prod_unfold)
  moreover have "has_concert_at events v u \<longleftrightarrow> concerts_matching events u v \<noteq> []"
    by (auto simp: has_concert_at_def concerts_matching_def list_ex_iff filter_empty_conv)
  ultimately show ?thesis
    by (cases "concerts_matching events u v") auto
qed

lemma upsell_join_total_once:
  assumes "distinct (map fst events)" and "distinct (concert_keys events)"
  shows "upsell_join_total events ticket_sales v = venue_upsell_tickets events ticket_sales v"
proof -
  have "upsell_join_total events ticket_sales v
          = sum_list (map (\<lambda>p. if has_concert_at events v (snd p)
                               then event_sold ticket_sales (fst p) else 0)
              (filter (\<lambda>p. \<not> is_tour_name (name (snd p))) events))"
    by (simp add: upsell_join_total_def case_prod_unfold concerts_matching_once [OF assms(2)])
  also have "\<dots> = sum_list (map (\<lambda>p. event_sold ticket_sales (fst p))
                      (filter (\<lambda>p. \<not> is_tour_name (name (snd p)) \<and> has_concert_at events v (snd p))
                         events))"
    by (simp add: sum_if_filter)
  also have "\<dots> = venue_upsell_tickets events ticket_sales v"
    using sold_by_event [OF assms(1),
        of ticket_sales "\<lambda>p. \<not> is_tour_name (name (snd p)) \<and> has_concert_at events v (snd p)"]
    by (simp add: venue_upsell_tickets_def upsell_at_def case_prod_unfold)
  finally show ?thesis .
qed

text \<open>
  Claim C9, as amended. When every event id names one event row and no two concerts share
  a venue and date, \<open>upsell_rate_pct\<close> in every row of the query is the tickets sold for
  the venue's upsells times 100 divided by the tickets sold for the venue's concerts,
  rounded to two decimals; the divisor is the concert tickets alone, which are positive in
  every row.
\<close>

theorem rate_per_concert_ticket:
  assumes "distinct (map fst events)" and "distinct (concert_keys events)"
  shows "\<forall>r \<in> set (QUERY rnd events ticket_sales).
     row_concert_tickets r = venue_concert_tickets events ticket_sales (row_venue_id r) \<and>
     row_upsell_tickets r = venue_upsell_tickets events ticket_sales (row_venue_id r) \<and>
     0 < venue_concert_tickets events ticket_sales (row_venue_id r) \<and>
     upsell_rate_pct r =
       sql_round2 rnd
         (rnd (rnd (real_of_int (venue_upsell_tickets events ticket_sales (row_venue_id r)) * 100)
               / real_of_int (venue_concert_tickets events ticket_sales (row_venue_id r))))"
proof
  fix r assume "r \<in> set (QUERY rnd events ticket_sales)"
  then obtain v ct where cs: "(v, ct) \<in> set (concert_sales events ticket_sales)"
    and lj: "r \<in> set (left_join_rows rnd (upsell_sales events ticket_sales) (v, ct))"
    and pos: "row_concert_tickets r > 0"
    by (rule query_row)
  have ct: "ct = venue_concert_tickets events ticket_sales v"
    using concert_sales_total [OF cs] by (simp add: concert_join_total_once [OF assms(1)])
  have ut: "upsell_join_total events ticket_sales v = venue_upsell_tickets events ticket_sales v"
    using assms by (rule upsell_join_total_once)
  from left_join_row [OF lj] pos ct
  show "row_concert_tickets r = venue_concert_tickets events ticket_sales (row_venue_id r) \<and>
     row_upsell_tickets r = venue_upsell_tickets events ticket_sales (row_venue_id r) \<and>
     0 < venue_concert_tickets events ticket_sales (row_venue_id r) \<and>
     upsell_rate_pct r =
       sql_round2 rnd
         (rnd (rnd (real_of_int (venue_upsell_tickets events ticket_sales (row_venue_id r)) * 100)
               / real_of_int (venue_concert_tickets events ticket_sales (row_venue_id r))))"
    unfolding ut by (auto simp: select_row_def coalesce_def)
qed

lemma ex_tour_names:
  "is_tour_name ''Super Awesome Tour - Harbor''" "is_tour_name ''Super Awesome Tour - Dock''"
  "is_tour_name ''Super Awesome Tour - Harbor Late''"
  "\<not> is_tour_name ''VIP Lounge''" "\<not> is_tour_name ''Meet and Greet''"
  by code_simp+

lemma ex_query: "QUERY (\<lambda>x. x) (ex_concerts @ ex_upsells) ex_sales = [ex_venue_row]"
  by (simp add: QUERY_def concert_sales_def upsell_sales_def concert_join_def upsell_join_def
      matched_upsells_def cte_concerts_def cte_upsells_def left_join_rows_def select_row_def
      coalesce_def sql_round2_def round_half_away_def ex_concerts_def ex_upsells_def
      ex_sales_def ex_tour_names ex_venue_row_def Let_def)

lemma ex_venue_totals:
  "venue_concert_tickets (ex_concerts @ ex_upsells) ex_sales ''1'' = 30"
  "venue_upsell_tickets (ex_concerts @ ex_upsells) ex_sales ''1'' = 5"
  by (simp_all add: venue_concert_tickets_def venue_upsell_tickets_def concert_at_def
      upsell_at_def has_concert_at_def ex_concerts_def ex_upsells_def ex_sales_def
      ex_tour_names)

lemma ex_keys:
  "distinct (map fst (ex_concerts @ ex_upsells))"
  "distinct (concert_keys (ex_concerts @ ex_upsells))"
  by (simp_all add: concert_keys_def ex_concerts_def ex_upsells_def ex_tour_names)

theorem rate_per_concert_ticket_witness:
  "distinct (map fst (ex_concerts @ ex_upsells)) \<and>
   distinct (concert_keys (ex_concerts @ ex_upsells)) \<and>
   QUERY (\<lambda>x. x) (ex_concerts @ ex_upsells) ex_sales = [ex_venue_row] \<and>
   row_concert_tickets ex_venue_row = 30 \<and>
   venue_concert_tickets (ex_concerts @ ex_upsells) ex_sales ''1'' = 30 \<and>
   row_upsell_tickets ex_venue_row = 5 \<and>
   venue_upsell_tickets (ex_concerts @ ex_upsells) ex_sales ''1'' = 5 \<and>
   upsell_rate_pct ex_venue_row = sql_round2 (\<lambda>x. x) (5 * 100 / 30)"
  using ex_keys rate_per_concert_ticket [OF ex_keys, of "\<lambda>x. x" ex_sales]
  by (simp add: ex_query ex_venue_totals) (simp add: ex_venue_row_def)

text \<open>
  Claim C9, as stated, fails on the small tour: venue 1 has 30 concert tickets and 5 upsell
  tickets, the query returns 16.67, and the rate of the specification is 14.29.
\<close>

theorem rate_of_total_counterexample:
  "QUERY (\<lambda>x. x) (ex_concerts @ ex_upsells) ex_sales = [ex_venue_row] \<and>
   upsell_rate_pct ex_venue_row = 1667 / 100 \<and>
   spec_upsell_rate (\<lambda>x. x)
       (venue_upsell_tickets (ex_concerts @ ex_upsells) ex_sales (row_venue_id ex_venue_row))
       (venue_concert_tickets (ex_concerts @ ex_upsells) ex_sales (row_venue_id ex_venue_row))
     = 1429 / 100 \<and>
   upsell_rate_pct ex_venue_row \<noteq>
     spec_upsell_rate (\<lambda>x. x)
       (venue_upsell_tickets (ex_concerts @ ex_upsells) ex_sales (row_venue_id ex_venue_row))
       (venue_concert_tickets (ex_concerts @ ex_upsells) ex_sales (row_venue_id ex_venue_row))"
  by (simp add: ex_query) (simp add: ex_venue_row_def ex_venue_totals spec_upsell_rate_def
      sql_round2_def round_half_away_def)

text \<open>
  With two concerts at one venue and date the join pairs the upsell B with both, and the
  query adds its 5 tickets twice. The premise on the concert keys keeps this case outside
  the statement above.
\<close>

lemma ex_twin_query:
  "QUERY (\<lambda>x. x) (ex_twin_concerts @ ex_upsells) ex_sales = [ex_twin_venue_row]"
  "venue_upsell_tickets (ex_twin_concerts @ ex_upsells) ex_sales ''1'' = 5"
  "\<not> distinct (concert_keys (ex_twin_concerts @ ex_upsells))"
  by (simp_all add: QUERY_def concert_sales_def upsell_sales_def concert_join_def upsell_join_def
      matched_upsells_def cte_concerts_def cte_upsells_def left_join_rows_def select_row_def
      coalesce_def sql_round2_def round_half_away_def ex_twin_concerts_def ex_concerts_def
      ex_upsells_def ex_sales_def ex_tour_names ex_twin_venue_row_def Let_def
      venue_upsell_tickets_def upsell_at_def has_concert_at_def concert_keys_def)

end
